theory Spec2Isabelle
  imports Main "HOL-Library.Char_ord" "HOL-Library.List_Lexorder"
begin

section \<open>The apiserver builder of pkg/builder/builder.go\<close>

text \<open>
  A shallow embedding of the resource-registration builder: the keys
  (schema.GroupVersionResource and its two projections), the memoising
  \<open>singletonProvider\<close>, the registration methods of \<open>*Server\<close>, the
  aggregate error type \<open>errs\<close>, and \<open>Build\<close>.

  Go strings are byte strings; they are modelled as \<open>string\<close> with the bytewise
  lexicographic order (the order of Go's \<open><\<close> on strings, which sets.String.List
  sorts by).
\<close>

subsection \<open>Keys\<close>

datatype GroupVersion = GroupVersion (gv_Group: string) (gv_Version: string)

datatype GroupResource = GroupResource (gr_Group: string) (gr_Resource: string)

record GroupVersionResource =
  Group :: string
  Version :: string
  Resource :: string

text \<open>gvr.GroupVersion(), gvr.GroupResource() and gv.WithResource(name).\<close>

definition gvr_GroupVersion :: "GroupVersionResource \<Rightarrow> GroupVersion" where
  "gvr_GroupVersion gvr = GroupVersion (Group gvr) (Version gvr)"

definition gvr_GroupResource :: "GroupVersionResource \<Rightarrow> GroupResource" where
  "gvr_GroupResource gvr = GroupResource (Group gvr) (Resource gvr)"

definition gv_WithResource :: "GroupVersion \<Rightarrow> string \<Rightarrow> GroupVersionResource" where
  "gv_WithResource gv r = \<lparr>Group = gv_Group gv, Version = gv_Version gv, Resource = r\<rparr>"

subsection \<open>Errors\<close>

text \<open>
  Go's \<open>error\<close> interface has two implementations here: the values made by
  fmt.Errorf, which carry a message, and \<open>errs\<close>, the aggregate of a list of
  errors. \<open>Error\<close> is the method \<open>Error() string\<close>; for \<open>errs\<close> it is
  lines 390-396: the header \<open>Sprintf("%d errors: ", len)\<close> followed by the
  message of each element, joined with a newline.
\<close>

datatype error = Errorf string | Errs "error list"

definition digit :: "nat \<Rightarrow> char" where
  "digit d = ''0123456789'' ! d"

function decimal :: "nat \<Rightarrow> string" where
  "decimal n = (if n < 10 then [digit n] else decimal (n div 10) @ [digit (n mod 10)])"
  by pat_completeness auto
termination
  by (relation "measure (\<lambda>n. n)") auto

fun strings_Join :: "string list \<Rightarrow> string \<Rightarrow> string" where
  "strings_Join [] sep = []"
| "strings_Join [x] sep = x"
| "strings_Join (x # y # ys) sep = x @ sep @ strings_Join (y # ys) sep"

definition newline :: string where
  "newline = [CHR 0x0A]"

fun Error :: "error \<Rightarrow> string" where
  "Error (Errorf m) = m"
| "Error (Errs l) =
     strings_Join ((decimal (length l) @ '' errors: '') # map Error l) newline"

subsection \<open>Resource objects and handler providers\<close>

text \<open>
  A resource.Object is read through GetGroupVersionResource() and through the type
  assertions of WithResource and forGroupVersionResource; the record holds the
  answer to each. A runtime.Object passed as a sub-resource request is the same
  record, of which only \<open>implDefaulter\<close> is read.
\<close>

record Object =
  objName :: string
  objGVR :: GroupVersionResource
  implCreator :: bool
  implUpdater :: bool
  implGetter :: bool
  implLister :: bool
  implStatus :: bool
  implDefaulter :: bool

text \<open>
  A rest.ResourceHandlerProvider is a function value
  \<open>func(scheme, optsGetter) (Storage, error)\<close>. The builder makes providers of
  two kinds: the method value \<open>s.Get\<close> of a singletonProvider \<open>s\<close> (a pointer,
  here an index into the heap of singletonProviders), and the factories of package
  rest or of the caller, which are opaque here and named by how they were made.
  What a factory returns when it is invoked is a parameter: it may depend on every
  invocation made before it (a factory such as rest.New builds a new store each
  time it runs).
\<close>

type_synonym Storage = nat
type_synonym args = "nat \<times> nat"
type_synonym result = "Storage option \<times> error option"

datatype factory =
    StaticHandlerProvider_Get Object
  | rest_New Object
  | rest_NewStatus Object
  | rest_NewWithStrategy Object nat
  | rest_NewStatusWithStrategy Object nat
  | rest_NewWithFn Object nat
  | rest_NewStatusWithFn Object nat
  | Supplied nat

datatype provider = Factory factory | SingletonGet nat

type_synonym invocation = "factory \<times> args"
type_synonym behaviour = "factory \<Rightarrow> invocation list \<Rightarrow> args \<Rightarrow> result"

text \<open>
  singletonProvider (lines 371-376). \<open>once_done\<close> is the state of the embedded
  sync.Once; a new singletonProvider has the zero Once and nil storage and err.
\<close>

record singletonProvider =
  once_done :: bool
  Provider :: provider
  s_storage :: "Storage option"
  s_err :: "error option"

definition new_singletonProvider :: "provider \<Rightarrow> singletonProvider" where
  "new_singletonProvider sp =
     \<lparr>once_done = False, Provider = sp, s_storage = None, s_err = None\<rparr>"

subsection \<open>The scheme\<close>

text \<open>
  runtime.Scheme belongs to apimachinery. It is modelled by what the builder asks
  of it: the arguments of every SetVersionPriority call that succeeded, of every
  metav1.AddToGroupVersion call and of every AddTypeDefaultingFunc call, in order.
\<close>

record Scheme =
  versionPriorityCalls :: "GroupVersion list list"
  metaGroupVersions :: "GroupVersion list"
  typeDefaultingFuncs :: "Object list"

definition NewScheme :: Scheme where
  "NewScheme = \<lparr>versionPriorityCalls = [], metaGroupVersions = [], typeDefaultingFuncs = []\<rparr>"

text \<open>
  The functions of a runtime.SchemeBuilder: resource.AddToScheme(obj), a function
  given to WithAdditionalSchemeInstallers (named by a number), and the closure that
  Build registers (lines 319-344), which reads the builder and apiserver.APIs when
  it runs.
\<close>

datatype installer =
    resource_AddToScheme Object
  | Additional nat
  | BuildVersionPriorities

subsection \<open>The state\<close>

text \<open>
  The fields of \<open>Server\<close> (lines 48-55) and the package state the builder
  writes: the heap of singletonProviders (a \<open>*singletonProvider\<close> is an index
  into it), \<open>apiserver.APIs\<close>, the schemes by pointer (pointer
  \<open>apiserver_Scheme\<close> is \<open>apiserver.Scheme\<close>), and the log of factory
  invocations.
\<close>

record world =
  errs :: "error list"
  storage :: "GroupResource \<rightharpoonup> nat"
  groupVersions :: "(GroupVersion \<rightharpoonup> bool) option"
  orderedGroupVersions :: "GroupVersion list"
  schemes :: "nat list"
  schemeBuilder :: "installer list"
  heap :: "singletonProvider list"
  APIs :: "GroupVersionResource \<rightharpoonup> provider"
  schemeStore :: "nat \<Rightarrow> Scheme"
  invocations :: "invocation list"

definition apiserver_Scheme :: nat where
  "apiserver_Scheme = 0"

text \<open>
  \<open>var APIServer = &Server{storage: map[...]...{}}\<close> (lines 43-45), with
  apiserver.APIs empty and every scheme new.
\<close>

definition APIServer :: world where
  "APIServer =
     \<lparr>errs = [], storage = Map.empty, groupVersions = None, orderedGroupVersions = [],
      schemes = [], schemeBuilder = [], heap = [], APIs = Map.empty,
      schemeStore = (\<lambda>_. NewScheme), invocations = []\<rparr>"

subsection \<open>Invoking a provider\<close>

text \<open>
  Calling a provider value. A factory is invoked: its result is what its
  behaviour gives after the invocations so far, and the invocation is logged.
  \<open>s.Get\<close> (lines 378-384) runs \<open>s.Provider\<close> inside \<open>s.Once.Do\<close> when the
  Once has not fired, stores the pair and returns the stored pair. A Get that is
  re-entered from its own Provider waits on the Once forever; the function is
  partial and \<open>None\<close> is "does not return". A Get through a pointer that is
  not a singletonProvider of the heap does not return a pair either.
\<close>

partial_function (option) callProvider ::
  "behaviour \<Rightarrow> world \<Rightarrow> provider \<Rightarrow> args \<Rightarrow> (result \<times> world) option" where
  "callProvider run w p a =
     (case p of
        Factory f \<Rightarrow>
          Some (run f (invocations w) a, w\<lparr>invocations := invocations w @ [(f, a)]\<rparr>)
      | SingletonGet s \<Rightarrow>
          if length (heap w) \<le> s then None
          else if once_done (heap w ! s)
          then Some ((s_storage (heap w ! s), s_err (heap w ! s)), w)
          else Option.bind (callProvider run w (Provider (heap w ! s)) a)
                 (\<lambda>(r, w').
                    Some (r, w'\<lparr>heap := (heap w')[s := (heap w' ! s)
                            \<lparr>once_done := True, s_storage := fst r, s_err := snd r\<rparr>]\<rparr>)))"

text \<open>A sequence of calls of one provider, each on the state the last one left.\<close>

fun callProviderSeq ::
  "behaviour \<Rightarrow> world \<Rightarrow> provider \<Rightarrow> args list \<Rightarrow> (result list \<times> world) option" where
  "callProviderSeq run w p [] = Some ([], w)"
| "callProviderSeq run w p (a # as) =
     (case callProvider run w p a of
        None \<Rightarrow> None
      | Some (r, w') \<Rightarrow>
          (case callProviderSeq run w' p as of
             None \<Rightarrow> None
           | Some (rs, w'') \<Rightarrow> Some (r # rs, w'')))"

subsection \<open>Registration\<close>

text \<open>
  withGroupVersions (lines 279-291): the map is made when it is nil, and each
  group-version not yet a key of it is added to the map and appended to the list.
\<close>

fun withGroupVersions_range ::
  "(GroupVersion \<rightharpoonup> bool) \<Rightarrow> GroupVersion list \<Rightarrow> GroupVersion list \<Rightarrow>
   (GroupVersion \<rightharpoonup> bool) \<times> GroupVersion list" where
  "withGroupVersions_range m ordered [] = (m, ordered)"
| "withGroupVersions_range m ordered (gv # versions) =
     (if m gv \<noteq> None then withGroupVersions_range m ordered versions
      else withGroupVersions_range (m(gv \<mapsto> True)) (ordered @ [gv]) versions)"

definition withGroupVersions :: "world \<Rightarrow> GroupVersion list \<Rightarrow> world" where
  "withGroupVersions a versions =
     (let m0 = (case groupVersions a of None \<Rightarrow> Map.empty | Some m \<Rightarrow> m);
          (m, ordered) = withGroupVersions_range m0 (orderedGroupVersions a) versions
      in a\<lparr>groupVersions := Some m, orderedGroupVersions := ordered\<rparr>)"

text \<open>Scheme.AddTypeDefaultingFunc, as the scheme records it.\<close>

definition AddTypeDefaultingFunc :: "Scheme \<Rightarrow> Object \<Rightarrow> Scheme" where
  "AddTypeDefaultingFunc scheme obj =
     scheme\<lparr>typeDefaultingFuncs := typeDefaultingFuncs scheme @ [obj]\<rparr>"

text \<open>
  forGroupVersionResource (lines 209-231). A new singletonProvider is allocated at
  the end of the heap only when the GroupResource is not a key of \<open>storage\<close>;
  \<open>apiserver.APIs[gvr]\<close> is set to the provider \<open>sp\<close> that was passed in.
\<close>

definition forGroupVersionResource ::
  "world \<Rightarrow> GroupVersionResource \<Rightarrow> Object \<Rightarrow> provider \<Rightarrow> world" where
  "forGroupVersionResource a gvr obj sp =
     (let a1 = withGroupVersions a [gvr_GroupVersion gvr];
          a2 = (case storage a1 (gvr_GroupResource gvr) of
                  Some _ \<Rightarrow> a1
                | None \<Rightarrow>
                    a1\<lparr>storage := (storage a1)(gvr_GroupResource gvr \<mapsto> length (heap a1)),
                       heap := heap a1 @ [new_singletonProvider sp]\<rparr>);
          a3 = (if implDefaulter obj
                then a2\<lparr>schemeStore := (schemeStore a2)
                        (apiserver_Scheme :=
                           AddTypeDefaultingFunc (schemeStore a2 apiserver_Scheme) obj)\<rparr>
                else a2)
      in a3\<lparr>APIs := (APIs a3)(gvr \<mapsto> sp)\<rparr>)"

definition schemeBuilder_Register :: "world \<Rightarrow> installer list \<Rightarrow> world" where
  "schemeBuilder_Register a fns = a\<lparr>schemeBuilder := schemeBuilder a @ fns\<rparr>"

definition statusGVR :: "GroupVersionResource \<Rightarrow> GroupVersionResource" where
  "statusGVR gvr = gv_WithResource (gvr_GroupVersion gvr) (Resource gvr @ ''/status'')"

text \<open>
  WithResource (lines 115-150). The type switch tries Creator, Updater, Getter and
  Lister in this order; each case returns at once with the object itself as the
  handler (the assertion to rest.Storage in each case is taken to hold: the
  interface is declared outside this file).
\<close>

definition WithResource :: "world \<Rightarrow> Object \<Rightarrow> world" where
  "WithResource a0 obj =
     (let gvr = objGVR obj;
          a = schemeBuilder_Register a0 [resource_AddToScheme obj]
      in case storage a (gvr_GroupResource gvr) of
           Some s \<Rightarrow> forGroupVersionResource a gvr obj (SingletonGet s)
         | None \<Rightarrow>
             if implCreator obj
             then forGroupVersionResource a gvr obj (Factory (StaticHandlerProvider_Get obj))
             else if implUpdater obj
             then forGroupVersionResource a gvr obj (Factory (StaticHandlerProvider_Get obj))
             else if implGetter obj
             then forGroupVersionResource a gvr obj (Factory (StaticHandlerProvider_Get obj))
             else if implLister obj
             then forGroupVersionResource a gvr obj (Factory (StaticHandlerProvider_Get obj))
             else
               let a1 = forGroupVersionResource a gvr obj (Factory (rest_New obj))
               in if implStatus obj
                  then (let st = statusGVR gvr
                        in case storage a1 (gvr_GroupResource st) of
                             Some s \<Rightarrow> forGroupVersionResource a1 st obj (SingletonGet s)
                           | None \<Rightarrow>
                               forGroupVersionResource a1 st obj (Factory (rest_NewStatus obj)))
                  else a1)"

text \<open>WithResourceAndStrategy (lines 158-170).\<close>

definition WithResourceAndStrategy :: "world \<Rightarrow> Object \<Rightarrow> nat \<Rightarrow> world" where
  "WithResourceAndStrategy a0 obj strategy =
     (let gvr = objGVR obj;
          a = schemeBuilder_Register a0 [resource_AddToScheme obj];
          a1 = forGroupVersionResource a gvr obj (Factory (rest_NewWithStrategy obj strategy))
      in if implStatus obj
         then forGroupVersionResource a1 (statusGVR gvr) obj
                (Factory (rest_NewStatusWithStrategy obj strategy))
         else a1)"

text \<open>WithResourceAndHandler (lines 179-183).\<close>

definition WithResourceAndHandler :: "world \<Rightarrow> Object \<Rightarrow> provider \<Rightarrow> world" where
  "WithResourceAndHandler a0 obj sp =
     (let gvr = objGVR obj;
          a = schemeBuilder_Register a0 [resource_AddToScheme obj]
      in forGroupVersionResource a gvr obj sp)"

text \<open>WithResourceAndStorage (lines 193-206).\<close>

definition WithResourceAndStorage :: "world \<Rightarrow> Object \<Rightarrow> nat \<Rightarrow> world" where
  "WithResourceAndStorage a0 obj fn =
     (let gvr = objGVR obj;
          a = schemeBuilder_Register a0 [resource_AddToScheme obj];
          a1 = forGroupVersionResource a gvr obj (Factory (rest_NewWithFn obj fn))
      in if implStatus obj
         then forGroupVersionResource a1 (statusGVR gvr) obj
                (Factory (rest_NewStatusWithFn obj fn))
         else a1)"

text \<open>
  The key of a sub-resource: the parent's key with
  \<open>gvr.Resource = gvr.Resource + "/" + subResourcePath\<close>.
\<close>

definition subResourceGVR :: "Object \<Rightarrow> string \<Rightarrow> GroupVersionResource" where
  "subResourceGVR parent subResourcePath =
     (let gvr = objGVR parent
      in gvr\<lparr>Resource := Resource gvr @ ''/'' @ subResourcePath\<rparr>)"

definition subResourceError :: error where
  "subResourceError = Errorf
     ''subresources must be registered with a strategy or handler the first time they are registered''"

text \<open>WithSubResource (lines 238-251).\<close>

definition WithSubResource :: "world \<Rightarrow> Object \<Rightarrow> string \<Rightarrow> Object \<Rightarrow> world" where
  "WithSubResource a parent subResourcePath request =
     (let gvr = subResourceGVR parent subResourcePath
      in case storage a (gvr_GroupResource gvr) of
           Some s \<Rightarrow> forGroupVersionResource a gvr request (SingletonGet s)
         | None \<Rightarrow> a\<lparr>errs := errs a @ [subResourceError]\<rparr>)"

text \<open>WithSubResourceAndStrategy (lines 258-263) and WithSubResourceAndHandler (lines 270-276).\<close>

definition WithSubResourceAndStrategy ::
  "world \<Rightarrow> Object \<Rightarrow> string \<Rightarrow> Object \<Rightarrow> nat \<Rightarrow> world" where
  "WithSubResourceAndStrategy a parent subResourcePath request strategy =
     forGroupVersionResource a (subResourceGVR parent subResourcePath) request
       (Factory (rest_NewWithStrategy request strategy))"

definition WithSubResourceAndHandler ::
  "world \<Rightarrow> Object \<Rightarrow> string \<Rightarrow> Object \<Rightarrow> provider \<Rightarrow> world" where
  "WithSubResourceAndHandler a parent subResourcePath request sp =
     forGroupVersionResource a (subResourceGVR parent subResourcePath) request sp"

text \<open>WithAdditionalSchemeInstallers (lines 76-79) and WithAdditionalSchemesToBuild (lines 85-88).\<close>

definition WithAdditionalSchemeInstallers :: "world \<Rightarrow> nat list \<Rightarrow> world" where
  "WithAdditionalSchemeInstallers a fns = schemeBuilder_Register a (map Additional fns)"

definition WithAdditionalSchemesToBuild :: "world \<Rightarrow> nat list \<Rightarrow> world" where
  "WithAdditionalSchemesToBuild a s = a\<lparr>schemes := schemes a @ s\<rparr>"

text \<open>
  A call of the fluent interface, and a chain of calls. WithOpenAPIDefinitions,
  DisableDelegateAuth, WithOptionsFns and WithServerFns write only to variables of
  packages server and apiserver that nothing here reads; they leave this state as
  it is.
\<close>

datatype builderCall =
    CallWithResource Object
  | CallWithResourceAndStrategy Object nat
  | CallWithResourceAndHandler Object provider
  | CallWithResourceAndStorage Object nat
  | CallWithSubResource Object string Object
  | CallWithSubResourceAndStrategy Object string Object nat
  | CallWithSubResourceAndHandler Object string Object provider
  | CallWithAdditionalSchemeInstallers "nat list"
  | CallWithAdditionalSchemesToBuild "nat list"
  | CallOther

fun call :: "world \<Rightarrow> builderCall \<Rightarrow> world" where
  "call a (CallWithResource obj) = WithResource a obj"
| "call a (CallWithResourceAndStrategy obj strategy) = WithResourceAndStrategy a obj strategy"
| "call a (CallWithResourceAndHandler obj sp) = WithResourceAndHandler a obj sp"
| "call a (CallWithResourceAndStorage obj fn) = WithResourceAndStorage a obj fn"
| "call a (CallWithSubResource parent path request) = WithSubResource a parent path request"
| "call a (CallWithSubResourceAndStrategy parent path request strategy) =
     WithSubResourceAndStrategy a parent path request strategy"
| "call a (CallWithSubResourceAndHandler parent path request sp) =
     WithSubResourceAndHandler a parent path request sp"
| "call a (CallWithAdditionalSchemeInstallers fns) = WithAdditionalSchemeInstallers a fns"
| "call a (CallWithAdditionalSchemesToBuild s) = WithAdditionalSchemesToBuild a s"
| "call a CallOther = a"

definition chain :: "world \<Rightarrow> builderCall list \<Rightarrow> world" where
  "chain a cs = foldl call a cs"

subsection \<open>Build\<close>

text \<open>
  What Build needs from outside this file. An installer is a Go function
  \<open>func(*runtime.Scheme) error\<close>: it may write to the scheme and returns an
  error or nil. Whether apimachinery's SetVersionPriority refuses its arguments is
  a parameter; when it does not, the scheme records the call. A \<open>range\<close> over a
  Go map visits the keys in an order the language leaves open: the order is given
  from outside, per run of the closure (one run for each scheme, numbered from 0),
  and the loop visits the keys of the map in that order.
\<close>

record externals =
  run_resource_AddToScheme :: "Object \<Rightarrow> Scheme \<Rightarrow> error option \<times> Scheme"
  run_Additional :: "nat \<Rightarrow> Scheme \<Rightarrow> error option \<times> Scheme"
  SetVersionPriority_error :: "Scheme \<Rightarrow> GroupVersion list \<Rightarrow> error option"
  range_APIs :: "nat \<Rightarrow> GroupVersionResource list"
  range_groupVersions :: "nat \<Rightarrow> string list"

definition SetVersionPriority ::
  "externals \<Rightarrow> Scheme \<Rightarrow> GroupVersion list \<Rightarrow> error option \<times> Scheme" where
  "SetVersionPriority x scheme versions =
     (case SetVersionPriority_error x scheme versions of
        Some e \<Rightarrow> (Some e, scheme)
      | None \<Rightarrow>
          (None, scheme\<lparr>versionPriorityCalls := versionPriorityCalls scheme @ [versions]\<rparr>))"

definition metav1_AddToGroupVersion :: "Scheme \<Rightarrow> GroupVersion \<Rightarrow> Scheme" where
  "metav1_AddToGroupVersion scheme gv =
     scheme\<lparr>metaGroupVersions := metaGroupVersions scheme @ [gv]\<rparr>"

text \<open>
  The first loop of the closure (lines 320-326): its local map
  \<open>groupVersions\<close>, here \<open>groups\<close>, maps a group to the sets.String of its
  versions; a group met for the first time gets the empty set before the version is
  inserted.
\<close>

fun collectGroupVersions ::
  "(string \<rightharpoonup> string set) \<Rightarrow> GroupVersionResource list \<Rightarrow> (string \<rightharpoonup> string set)" where
  "collectGroupVersions groups [] = groups"
| "collectGroupVersions groups (gvr # rest) =
     (let versions = (case groups (Group gvr) of None \<Rightarrow> {} | Some vs \<Rightarrow> vs)
      in collectGroupVersions (groups(Group gvr \<mapsto> insert (Version gvr) versions)) rest)"

text \<open>sets.String.List(): the elements, sorted.\<close>

definition sets_List :: "string set \<Rightarrow> string list" where
  "sets_List vs = sorted_list_of_set vs"

text \<open>
  The slice \<open>gvs\<close> that the second loop builds for group \<open>g\<close> (lines 328-334)
  and passes to SetVersionPriority.
\<close>

definition priorityOf :: "(string \<rightharpoonup> string set) \<Rightarrow> string \<Rightarrow> GroupVersion list" where
  "priorityOf groups g =
     map (GroupVersion g)
       (sets_List (case groups g of None \<Rightarrow> {} | Some vs \<Rightarrow> vs))"

text \<open>The second loop (lines 327-339): the first error ends the closure.\<close>

fun setPriorities ::
  "externals \<Rightarrow> (string \<rightharpoonup> string set) \<Rightarrow> string list \<Rightarrow> Scheme \<Rightarrow> error option \<times> Scheme" where
  "setPriorities x groups [] scheme = (None, scheme)"
| "setPriorities x groups (g # gs) scheme =
     (case SetVersionPriority x scheme (priorityOf groups g) of
        (Some e, scheme') \<Rightarrow> (Some e, scheme')
      | (None, scheme') \<Rightarrow> setPriorities x groups gs scheme')"

text \<open>The keys of a map, in the order the range visits them.\<close>

definition rangeKeys :: "('k \<rightharpoonup> 'v) \<Rightarrow> 'k list \<Rightarrow> 'k list" where
  "rangeKeys m order = filter (\<lambda>k. m k \<noteq> None) order"

text \<open>The closure of lines 319-344, run as run number \<open>i\<close>.\<close>

definition buildVersionPriorities ::
  "externals \<Rightarrow> world \<Rightarrow> nat \<Rightarrow> Scheme \<Rightarrow> error option \<times> Scheme" where
  "buildVersionPriorities x a i scheme =
     (let groups = collectGroupVersions Map.empty (rangeKeys (APIs a) (range_APIs x i))
      in case setPriorities x groups
                (rangeKeys groups (range_groupVersions x i)) scheme of
           (Some e, scheme') \<Rightarrow> (Some e, scheme')
         | (None, scheme') \<Rightarrow>
             (None, foldl metav1_AddToGroupVersion scheme' (orderedGroupVersions a)))"

definition runInstaller ::
  "externals \<Rightarrow> world \<Rightarrow> nat \<Rightarrow> installer \<Rightarrow> Scheme \<Rightarrow> error option \<times> Scheme" where
  "runInstaller x a i f scheme =
     (case f of
        resource_AddToScheme obj \<Rightarrow> run_resource_AddToScheme x obj scheme
      | Additional n \<Rightarrow> run_Additional x n scheme
      | BuildVersionPriorities \<Rightarrow> buildVersionPriorities x a i scheme)"

text \<open>
  runtime.SchemeBuilder.AddToScheme: the functions are applied in the order they
  were registered, and the first error is returned.
\<close>

fun SchemeBuilder_AddToScheme ::
  "externals \<Rightarrow> world \<Rightarrow> nat \<Rightarrow> installer list \<Rightarrow> Scheme \<Rightarrow> error option \<times> Scheme" where
  "SchemeBuilder_AddToScheme x a i [] scheme = (None, scheme)"
| "SchemeBuilder_AddToScheme x a i (f # fs) scheme =
     (case runInstaller x a i f scheme of
        (Some e, scheme') \<Rightarrow> (Some e, scheme')
      | (None, scheme') \<Rightarrow> SchemeBuilder_AddToScheme x a i fs scheme')"

text \<open>
  The loop of lines 346-350 from index \<open>i\<close> on: the error of the first scheme
  whose AddToScheme fails (the code panics with it), or nil.
\<close>

fun addToSchemes :: "externals \<Rightarrow> world \<Rightarrow> nat \<Rightarrow> nat list \<Rightarrow> error option \<times> world" where
  "addToSchemes x a i [] = (None, a)"
| "addToSchemes x a i (p # ps) =
     (case SchemeBuilder_AddToScheme x a i (schemeBuilder a) (schemeStore a p) of
        (Some e, scheme') \<Rightarrow> (Some e, a\<lparr>schemeStore := (schemeStore a)(p := scheme')\<rparr>)
      | (None, scheme') \<Rightarrow>
          addToSchemes x (a\<lparr>schemeStore := (schemeStore a)(p := scheme')\<rparr>) (Suc i) ps)"

text \<open>
  The command: server.NewWardleServerOptions and server.NewCommandStartServer are
  given the ordered group-versions.
\<close>

datatype Command = Command "GroupVersion list"

text \<open>
  How a call of Build ends: it panics with an error, or it returns its pair
  \<open>(*Command, error)\<close>.
\<close>

datatype BuildResult = Panic error | Return "Command option" "error option"

text \<open>Build (lines 316-359).\<close>

definition Build :: "externals \<Rightarrow> world \<Rightarrow> BuildResult \<times> world" where
  "Build x a0 =
     (let a1 = a0\<lparr>schemes := schemes a0 @ [apiserver_Scheme]\<rparr>;
          a2 = schemeBuilder_Register a1 [BuildVersionPriorities]
      in case addToSchemes x a2 0 (schemes a2) of
           (Some e, a3) \<Rightarrow> (Panic e, a3)
         | (None, a3) \<Rightarrow>
             if length (errs a3) \<noteq> 0
             then (Return None (Some (Errs (errs a3))), a3)
             else (Return (Some (Command (orderedGroupVersions a3))) None, a3))"

subsection \<open>The serving layer's lookup\<close>

text \<open>
  Modelled from the spec: the code that reads \<open>apiserver.APIs\<close> (package
  apiserver) is not among the sources. The spec calls the map "a flattened view
  used by the serving layer" that binds each full resource key "to the provider it
  should use": the handler of a GroupVersionResource is what the provider bound to
  it in \<open>apiserver.APIs\<close> returns when it is called.
\<close>

definition retrieve ::
  "behaviour \<Rightarrow> world \<Rightarrow> GroupVersionResource \<Rightarrow> args \<Rightarrow> (result \<times> world) option" where
  "retrieve run w gvr a =
     (case APIs w gvr of None \<Rightarrow> None | Some sp \<Rightarrow> callProvider run w sp a)"

text \<open>The handlers of several keys, looked up one after the other.\<close>

fun retrieveAll ::
  "behaviour \<Rightarrow> world \<Rightarrow> GroupVersionResource list \<Rightarrow> args \<Rightarrow> (result list \<times> world) option" where
  "retrieveAll run w [] a = Some ([], w)"
| "retrieveAll run w (gvr # gvrs) a =
     (case retrieve run w gvr a of
        None \<Rightarrow> None
      | Some (r, w') \<Rightarrow>
          (case retrieveAll run w' gvrs a of
             None \<Rightarrow> None
           | Some (rs, w'') \<Rightarrow> Some (r # rs, w'')))"

subsection \<open>Notions used in the properties\<close>

text \<open>The lines of a text: the pieces between its newline characters.\<close>

fun splitLines :: "string \<Rightarrow> string list" where
  "splitLines [] = [[]]"
| "splitLines (c # cs) =
     (if c = CHR 0x0A then [] # splitLines cs
      else (case splitLines cs of [] \<Rightarrow> [[c]] | l # ls \<Rightarrow> (c # l) # ls))"

text \<open>The keys of the groupVersions field; a nil map has none.\<close>

definition groupVersionKeys :: "world \<Rightarrow> GroupVersion set" where
  "groupVersionKeys a = (case groupVersions a of None \<Rightarrow> {} | Some m \<Rightarrow> dom m)"

text \<open>
  The invariant of the group-version bookkeeping: the ordered list has no
  repetition, its elements are the keys of the map, and the group-version of every
  key of apiserver.APIs is among them.
\<close>

definition groupVersionsInv :: "world \<Rightarrow> bool" where
  "groupVersionsInv a \<longleftrightarrow>
     distinct (orderedGroupVersions a) \<and>
     set (orderedGroupVersions a) = groupVersionKeys a \<and>
     (\<forall>gvr \<in> dom (APIs a). count_list (orderedGroupVersions a) (gvr_GroupVersion gvr) = 1)"

text \<open>The ordered list holds the group-versions of the keys of apiserver.APIs, and only them.\<close>

definition observedInv :: "world \<Rightarrow> bool" where
  "observedInv a \<longleftrightarrow>
     set (orderedGroupVersions a) = groupVersionKeys a \<and>
     set (orderedGroupVersions a) = gvr_GroupVersion ` dom (APIs a)"

text \<open>
  The key that a call binds for the resource or sub-resource it is given; none when
  WithSubResource finds no provider, and none for the calls that register nothing.
\<close>

fun registeredKey :: "world \<Rightarrow> builderCall \<Rightarrow> GroupVersionResource option" where
  "registeredKey a (CallWithResource obj) = Some (objGVR obj)"
| "registeredKey a (CallWithResourceAndStrategy obj strategy) = Some (objGVR obj)"
| "registeredKey a (CallWithResourceAndHandler obj sp) = Some (objGVR obj)"
| "registeredKey a (CallWithResourceAndStorage obj fn) = Some (objGVR obj)"
| "registeredKey a (CallWithSubResource parent path request) =
     (if storage a (gvr_GroupResource (subResourceGVR parent path)) = None then None
      else Some (subResourceGVR parent path))"
| "registeredKey a (CallWithSubResourceAndStrategy parent path request strategy) =
     Some (subResourceGVR parent path)"
| "registeredKey a (CallWithSubResourceAndHandler parent path request sp) =
     Some (subResourceGVR parent path)"
| "registeredKey a (CallWithAdditionalSchemeInstallers fns) = None"
| "registeredKey a (CallWithAdditionalSchemesToBuild s) = None"
| "registeredKey a CallOther = None"

subsection \<open>Example inputs\<close>

definition widgets :: "string \<Rightarrow> Object" where
  "widgets v =
     \<lparr>objName = ''Widget'',
      objGVR = \<lparr>Group = ''apps'', Version = v, Resource = ''widgets''\<rparr>,
      implCreator = False, implUpdater = False, implGetter = False, implLister = False,
      implStatus = False, implDefaulter = False\<rparr>"

definition widgetsWithStatus :: "string \<Rightarrow> Object" where
  "widgetsWithStatus v = (widgets v)\<lparr>implStatus := True\<rparr>"

definition scaleRequest :: Object where
  "scaleRequest = (widgets ''v1'')\<lparr>objName := ''Scale''\<rparr>"

text \<open>A factory behaviour that builds a new store, numbered by the invocation, each time.\<close>

definition freshStore :: behaviour where
  "freshStore f log a = (Some (length log), None)"

text \<open>A factory behaviour that always fails.\<close>

definition failingFactory :: behaviour where
  "failingFactory f log a = (None, Some (Errorf ''no storage''))"

text \<open>Externals under which every installer succeeds, and under which the additional ones fail.\<close>

definition quietExternals :: externals where
  "quietExternals =
     \<lparr>run_resource_AddToScheme = (\<lambda>obj scheme. (None, scheme)),
      run_Additional = (\<lambda>n scheme. (None, scheme)),
      SetVersionPriority_error = (\<lambda>scheme versions. None),
      range_APIs = (\<lambda>i. [objGVR (widgets ''v2''), objGVR (widgets ''v1'')]),
      range_groupVersions = (\<lambda>i. [''apps''])\<rparr>"

definition failingExternals :: externals where
  "failingExternals =
     quietExternals\<lparr>run_Additional := (\<lambda>n scheme. (Some (Errorf ''install failed''), scheme))\<rparr>"

section \<open>Properties\<close>

subsection \<open>The singletonProvider\<close>

lemma callProvider_Factory:
  "callProvider run w (Factory f) a =
     Some (run f (invocations w) a, w\<lparr>invocations := invocations w @ [(f, a)]\<rparr>)"
  by (subst callProvider.simps) simp

lemma callProvider_done:
  "s < length (heap w) \<Longrightarrow> once_done (heap w ! s) \<Longrightarrow>
   callProvider run w (SingletonGet s) a = Some ((s_storage (heap w ! s), s_err (heap w ! s)), w)"
  by (subst callProvider.simps) simp

lemma callProvider_first:
  "s < length (heap w) \<Longrightarrow> \<not> once_done (heap w ! s) \<Longrightarrow>
   callProvider run w (Provider (heap w ! s)) a = Some (r, w1) \<Longrightarrow>
   callProvider run w (SingletonGet s) a =
     Some (r, w1\<lparr>heap := (heap w1)[s := (heap w1 ! s)
                 \<lparr>once_done := True, s_storage := fst r, s_err := snd r\<rparr>]\<rparr>)"
  by (subst callProvider.simps) simp

lemma callProvider_length_heap_aux:
  "callProvider run w p a = Some y \<Longrightarrow> length (heap (snd y)) = length (heap w)"
proof (rule callProvider.raw_induct
    [where P = "\<lambda>run w p a y. length (heap (snd y)) = length (heap w)"])
  show "callProvider run w p a = Some y" if "callProvider run w p a = Some y"
    using that .
next
  fix cp :: "behaviour \<Rightarrow> world \<Rightarrow> provider \<Rightarrow> args \<Rightarrow> (result \<times> world) option"
  fix run w p a y
  assume IH: "\<And>run w p a y. cp run w p a = Some y \<Longrightarrow> length (heap (snd y)) = length (heap w)"
  assume step: "(case p of
        Factory f \<Rightarrow>
          Some (run f (invocations w) a, w\<lparr>invocations := invocations w @ [(f, a)]\<rparr>)
      | SingletonGet s \<Rightarrow>
          if length (heap w) \<le> s then None
          else if once_done (heap w ! s)
          then Some ((s_storage (heap w ! s), s_err (heap w ! s)), w)
          else Option.bind (cp run w (Provider (heap w ! s)) a)
                 (\<lambda>(r, w').
                    Some (r, w'\<lparr>heap := (heap w')[s := (heap w' ! s)
                            \<lparr>once_done := True, s_storage := fst r, s_err := snd r\<rparr>]\<rparr>))) = Some y"
  show "length (heap (snd y)) = length (heap w)"
  proof (cases p)
    case (Factory f)
    with step show ?thesis by auto
  next
    case (SingletonGet s)
    with step IH show ?thesis
      by (fastforce split: if_splits Option.bind_splits)
  qed
qed

lemma callProvider_length_heap:
  "callProvider run w p a = Some (r, w') \<Longrightarrow> length (heap w') = length (heap w)"
  using callProvider_length_heap_aux[of run w p a "(r, w')"] by simp

lemma callProviderSeq_done:
  "s < length (heap w) \<Longrightarrow> once_done (heap w ! s) \<Longrightarrow>
   callProviderSeq run w (SingletonGet s) as =
     Some (replicate (length as) (s_storage (heap w ! s), s_err (heap w ! s)), w)"
  by (induction as) (simp_all add: callProvider_done)

lemma callProvider_fresh_factory:
  assumes "s < length (heap w)" and "\<not> once_done (heap w ! s)"
    and "Provider (heap w ! s) = Factory f"
  shows "callProvider run w (SingletonGet s) a =
     Some (run f (invocations w) a,
           w\<lparr>invocations := invocations w @ [(f, a)],
             heap := (heap w)[s := (heap w ! s)
                 \<lparr>once_done := True, s_storage := fst (run f (invocations w) a),
                  s_err := snd (run f (invocations w) a)\<rparr>]\<rparr>)"
proof -
  have "callProvider run w (Provider (heap w ! s)) a =
      Some (run f (invocations w) a, w\<lparr>invocations := invocations w @ [(f, a)]\<rparr>)"
    by (simp add: assms(3) callProvider_Factory)
  from callProvider_first[OF assms(1,2) this] show ?thesis by simp
qed

text \<open>
  C1. Take any singletonProvider whose Once has not fired, and any sequence of Get
  calls with any arguments, the wrapped Provider returning when it is invoked (a
  factory always does). Then every call returns, and returns the pair that the one
  invocation of the wrapped Provider, with the arguments of the first Get,
  produced, an error included; the state after the whole sequence is the state
  after that one invocation, with the pair stored. When the wrapped Provider is a
  factory \<open>f\<close>, the log of invocations has grown by the one entry of \<open>f\<close>
  with the first arguments.
\<close>

theorem singletonProvider_Get_once:
  assumes "s < length (heap w)" and "\<not> once_done (heap w ! s)"
    and "callProvider run w (Provider (heap w ! s)) a = Some (r, w1)"
  shows "callProviderSeq run w (SingletonGet s) (a # as) =
           Some (replicate (Suc (length as)) r,
                 w1\<lparr>heap := (heap w1)[s := (heap w1 ! s)
                       \<lparr>once_done := True, s_storage := fst r, s_err := snd r\<rparr>]\<rparr>) \<and>
         (\<forall>f. Provider (heap w ! s) = Factory f \<longrightarrow>
              r = run f (invocations w) a \<and> invocations w1 = invocations w @ [(f, a)])"
proof
  have len: "length (heap w1) = length (heap w)"
    by (rule callProvider_length_heap[OF assms(3)])
  let ?w2 = "w1\<lparr>heap := (heap w1)[s := (heap w1 ! s)
                 \<lparr>once_done := True, s_storage := fst r, s_err := snd r\<rparr>]\<rparr>"
  have first: "callProvider run w (SingletonGet s) a = Some (r, ?w2)"
    by (rule callProvider_first[OF assms])
  have s2: "s < length (heap ?w2)" and d2: "once_done (heap ?w2 ! s)"
    and st: "(s_storage (heap ?w2 ! s), s_err (heap ?w2 ! s)) = r"
    using assms(1) len by simp_all
  have rest: "callProviderSeq run ?w2 (SingletonGet s) as = Some (replicate (length as) r, ?w2)"
    using callProviderSeq_done[OF s2 d2, of run as] st by simp
  show "callProviderSeq run w (SingletonGet s) (a # as) = Some (replicate (Suc (length as)) r, ?w2)"
    using first rest by simp
  show "\<forall>f. Provider (heap w ! s) = Factory f \<longrightarrow>
              r = run f (invocations w) a \<and> invocations w1 = invocations w @ [(f, a)]"
    using assms(3) by (auto simp: callProvider_Factory)
qed

theorem singletonProvider_Get_once_witness:
  "callProviderSeq failingFactory
     (forGroupVersionResource APIServer (objGVR (widgets ''v1'')) (widgets ''v1'')
        (Factory (Supplied 0)))
     (SingletonGet 0) [(0, 0), (1, 1), (2, 2)] =
   Some (replicate 3 (None, Some (Errorf ''no storage'')),
         (forGroupVersionResource APIServer (objGVR (widgets ''v1'')) (widgets ''v1'')
            (Factory (Supplied 0)))
         \<lparr>invocations := [(Supplied 0, (0, 0))],
          heap := [\<lparr>once_done = True, Provider = Factory (Supplied 0), s_storage = None,
                    s_err = Some (Errorf ''no storage'')\<rparr>]\<rparr>)"
proof -
  let ?w = "forGroupVersionResource APIServer (objGVR (widgets ''v1'')) (widgets ''v1'')
        (Factory (Supplied 0))"
  have h: "heap ?w = [new_singletonProvider (Factory (Supplied 0))]"
    by (simp add: forGroupVersionResource_def withGroupVersions_def APIServer_def Let_def)
  have 1: "0 < length (heap ?w)" and 2: "\<not> once_done (heap ?w ! 0)"
    and p: "Provider (heap ?w ! 0) = Factory (Supplied 0)"
    by (simp_all add: h new_singletonProvider_def)
  have i: "invocations ?w = []"
    by (simp add: forGroupVersionResource_def withGroupVersions_def APIServer_def Let_def)
  have 3: "callProvider failingFactory ?w (Provider (heap ?w ! 0)) (0, 0) =
      Some ((None, Some (Errorf ''no storage'')), ?w\<lparr>invocations := [(Supplied 0, (0, 0))]\<rparr>)"
    by (simp add: p callProvider_Factory failingFactory_def i)
  show ?thesis
    using singletonProvider_Get_once[OF 1 2 3, of "[(1, 1), (2, 2)]"]
    by (simp add: h new_singletonProvider_def numeral_3_eq_3)
qed

subsection \<open>The aggregate error\<close>

lemma strings_Join_cons:
  "strings_Join (x # xs) sep = x @ concat (map (\<lambda>y. sep @ y) xs)"
  by (induction xs arbitrary: x) simp_all

lemma digit_not_newline: "d < 10 \<Longrightarrow> digit d \<noteq> CHR 0x0A"
proof -
  assume "d < 10"
  then have "d \<in> {0, 1, 2, 3, 4, 5, 6, 7, 8, 9}" by auto
  then show ?thesis by (auto simp: digit_def)
qed

lemma decimal_no_newline: "CHR 0x0A \<notin> set (decimal n)"
proof (induction n rule: decimal.induct)
  case (1 n)
  show ?case
  proof (cases "n < 10")
    case True
    then show ?thesis using digit_not_newline[of n] by (subst decimal.simps) auto
  next
    case False
    then have "CHR 0x0A \<notin> set (decimal (n div 10))" using 1 by simp
    moreover have "digit (n mod 10) \<noteq> CHR 0x0A" by (rule digit_not_newline) simp
    ultimately show ?thesis using False by (subst decimal.simps) auto
  qed
qed

lemma splitLines_no_newline: "CHR 0x0A \<notin> set xs \<Longrightarrow> splitLines xs = [xs]"
  by (induction xs) auto

lemma splitLines_append:
  "CHR 0x0A \<notin> set xs \<Longrightarrow> splitLines (xs @ CHR 0x0A # ys) = xs # splitLines ys"
  by (induction xs) auto

lemma splitLines_lines:
  "CHR 0x0A \<notin> set x \<Longrightarrow> \<forall>y \<in> set ys. CHR 0x0A \<notin> set y \<Longrightarrow>
   splitLines (x @ concat (map (\<lambda>y. newline @ y) ys)) = x # ys"
proof (induction ys arbitrary: x)
  case Nil
  then show ?case by (simp add: splitLines_no_newline)
next
  case (Cons y ys)
  have "splitLines (x @ concat (map (\<lambda>y. newline @ y) (y # ys))) =
        splitLines (x @ CHR 0x0A # (y @ concat (map (\<lambda>y. newline @ y) ys)))"
    by (simp add: newline_def)
  also have "\<dots> = x # splitLines (y @ concat (map (\<lambda>y. newline @ y) ys))"
    using Cons.prems(1) by (rule splitLines_append)
  also have "\<dots> = x # y # ys"
    using Cons.IH[of y] Cons.prems(2) by simp
  finally show ?case .
qed

lemma Error_Errs:
  "Error (Errs l) =
     (decimal (length l) @ '' errors: '') @ concat (map (\<lambda>e. newline @ Error e) l)"
  by (simp add: strings_Join_cons comp_def)

text \<open>
  C7. The message of the aggregate error of a list of errors is the header
  "N errors: ", N the length of the list in decimal, followed by a newline and the
  message of each error, in the order of the list. When no message contains a
  newline, its lines are the header and then the messages, one per line.
\<close>

theorem errs_Error_format:
  "Error (Errs l) =
     (decimal (length l) @ '' errors: '') @ concat (map (\<lambda>e. newline @ Error e) l) \<and>
   ((\<forall>e \<in> set l. CHR 0x0A \<notin> set (Error e)) \<longrightarrow>
      splitLines (Error (Errs l)) = (decimal (length l) @ '' errors: '') # map Error l)"
proof
  show eq: "Error (Errs l) =
     (decimal (length l) @ '' errors: '') @ concat (map (\<lambda>e. newline @ Error e) l)"
    by (simp add: strings_Join_cons comp_def)
  show "(\<forall>e \<in> set l. CHR 0x0A \<notin> set (Error e)) \<longrightarrow>
      splitLines (Error (Errs l)) = (decimal (length l) @ '' errors: '') # map Error l"
  proof
    assume nl: "\<forall>e \<in> set l. CHR 0x0A \<notin> set (Error e)"
    have h: "CHR 0x0A \<notin> set (decimal (length l) @ '' errors: '')"
      using decimal_no_newline[of "length l"] by simp
    have "splitLines ((decimal (length l) @ '' errors: '') @
             concat (map (\<lambda>y. newline @ y) (map Error l))) =
          (decimal (length l) @ '' errors: '') # map Error l"
      using h nl by (intro splitLines_lines) auto
    then show "splitLines (Error (Errs l)) = (decimal (length l) @ '' errors: '') # map Error l"
      by (simp add: strings_Join_cons comp_def)
  qed
qed

theorem errs_Error_format_witness:
  "Error (Errs [Errorf ''first'', subResourceError]) =
     ''2 errors: '' @ newline @ ''first'' @ newline @ Error subResourceError \<and>
   splitLines (Error (Errs [Errorf ''first'', subResourceError])) =
     [''2 errors: '', ''first'', Error subResourceError]"
  using errs_Error_format[of "[Errorf ''first'', subResourceError]"]
  by (simp add: digit_def subResourceError_def)

subsection \<open>What a registration changes\<close>

lemma withGroupVersions_single:
  "withGroupVersions a [gv] =
     (if gv \<in> groupVersionKeys a
      then a\<lparr>groupVersions := Some (case groupVersions a of None \<Rightarrow> Map.empty | Some m \<Rightarrow> m)\<rparr>
      else a\<lparr>groupVersions :=
               Some ((case groupVersions a of None \<Rightarrow> Map.empty | Some m \<Rightarrow> m)(gv \<mapsto> True)),
             orderedGroupVersions := orderedGroupVersions a @ [gv]\<rparr>)"
  by (auto simp: withGroupVersions_def groupVersionKeys_def split: option.splits)

lemma withGroupVersions_keys:
  "groupVersionKeys (withGroupVersions a [gv]) = insert gv (groupVersionKeys a)"
  by (auto simp: withGroupVersions_single groupVersionKeys_def split: option.splits)

lemma withGroupVersions_ordered:
  "orderedGroupVersions (withGroupVersions a [gv]) =
     (if gv \<in> groupVersionKeys a then orderedGroupVersions a else orderedGroupVersions a @ [gv])"
  by (simp add: withGroupVersions_single)

lemma withGroupVersions_frame:
  "errs (withGroupVersions a vs) = errs a"
  "storage (withGroupVersions a vs) = storage a"
  "schemes (withGroupVersions a vs) = schemes a"
  "schemeBuilder (withGroupVersions a vs) = schemeBuilder a"
  "heap (withGroupVersions a vs) = heap a"
  "APIs (withGroupVersions a vs) = APIs a"
  "schemeStore (withGroupVersions a vs) = schemeStore a"
  "invocations (withGroupVersions a vs) = invocations a"
  by (simp_all add: withGroupVersions_def Let_def split: prod.splits)

lemma forGVR_frame:
  "errs (forGroupVersionResource a gvr obj sp) = errs a"
  "schemes (forGroupVersionResource a gvr obj sp) = schemes a"
  "schemeBuilder (forGroupVersionResource a gvr obj sp) = schemeBuilder a"
  "invocations (forGroupVersionResource a gvr obj sp) = invocations a"
  by (simp_all add: forGroupVersionResource_def Let_def withGroupVersions_frame split: option.splits)

lemma forGVR_APIs:
  "APIs (forGroupVersionResource a gvr obj sp) = (APIs a)(gvr \<mapsto> sp)"
  by (simp add: forGroupVersionResource_def Let_def withGroupVersions_frame split: option.splits)

lemma forGVR_storage:
  "storage (forGroupVersionResource a gvr obj sp) =
     (case storage a (gvr_GroupResource gvr) of
        Some s \<Rightarrow> storage a
      | None \<Rightarrow> (storage a)(gvr_GroupResource gvr \<mapsto> length (heap a)))"
  by (simp add: forGroupVersionResource_def Let_def withGroupVersions_frame split: option.splits)

lemma forGVR_heap:
  "heap (forGroupVersionResource a gvr obj sp) =
     (case storage a (gvr_GroupResource gvr) of
        Some s \<Rightarrow> heap a
      | None \<Rightarrow> heap a @ [new_singletonProvider sp])"
  by (simp add: forGroupVersionResource_def Let_def withGroupVersions_frame split: option.splits)

lemma forGVR_keys:
  "groupVersionKeys (forGroupVersionResource a gvr obj sp) =
     insert (gvr_GroupVersion gvr) (groupVersionKeys a)"
proof -
  have "groupVersionKeys (forGroupVersionResource a gvr obj sp) =
        groupVersionKeys (withGroupVersions a [gvr_GroupVersion gvr])"
    by (simp add: forGroupVersionResource_def Let_def groupVersionKeys_def split: option.splits)
  then show ?thesis by (simp add: withGroupVersions_keys)
qed

lemma forGVR_ordered:
  "orderedGroupVersions (forGroupVersionResource a gvr obj sp) =
     (if gvr_GroupVersion gvr \<in> groupVersionKeys a then orderedGroupVersions a
      else orderedGroupVersions a @ [gvr_GroupVersion gvr])"
proof -
  have "orderedGroupVersions (forGroupVersionResource a gvr obj sp) =
        orderedGroupVersions (withGroupVersions a [gvr_GroupVersion gvr])"
    by (simp add: forGroupVersionResource_def Let_def split: option.splits)
  then show ?thesis by (simp add: withGroupVersions_ordered)
qed

text \<open>A property of the state that every step of a registration keeps is kept by every call.\<close>

lemma call_preserves:
  assumes reg: "\<And>a gvr obj sp. P a \<Longrightarrow> P (forGroupVersionResource a gvr obj sp)"
    and sb: "\<And>a fns. P a \<Longrightarrow> P (a\<lparr>schemeBuilder := schemeBuilder a @ fns\<rparr>)"
    and sc: "\<And>a s. P a \<Longrightarrow> P (a\<lparr>schemes := schemes a @ s\<rparr>)"
    and er: "\<And>a e. P a \<Longrightarrow> P (a\<lparr>errs := errs a @ [e]\<rparr>)"
    and "P a"
  shows "P (call a c)"
proof (cases c)
  case (CallWithResource obj)
  then show ?thesis using \<open>P a\<close>
    by (auto simp: WithResource_def Let_def schemeBuilder_Register_def
        intro!: reg sb split: option.splits)
next
  case (CallWithResourceAndStrategy obj strategy)
  then show ?thesis using \<open>P a\<close>
    by (auto simp: WithResourceAndStrategy_def Let_def schemeBuilder_Register_def intro!: reg sb)
next
  case (CallWithResourceAndHandler obj sp)
  then show ?thesis using \<open>P a\<close>
    by (auto simp: WithResourceAndHandler_def Let_def schemeBuilder_Register_def intro!: reg sb)
next
  case (CallWithResourceAndStorage obj fn)
  then show ?thesis using \<open>P a\<close>
    by (auto simp: WithResourceAndStorage_def Let_def schemeBuilder_Register_def intro!: reg sb)
next
  case (CallWithSubResource parent path request)
  then show ?thesis using \<open>P a\<close>
    by (auto simp: WithSubResource_def Let_def intro!: reg er split: option.splits)
next
  case (CallWithSubResourceAndStrategy parent path request strategy)
  then show ?thesis using \<open>P a\<close>
    by (auto simp: WithSubResourceAndStrategy_def intro!: reg)
next
  case (CallWithSubResourceAndHandler parent path request sp)
  then show ?thesis using \<open>P a\<close>
    by (auto simp: WithSubResourceAndHandler_def intro!: reg)
next
  case (CallWithAdditionalSchemeInstallers fns)
  then show ?thesis using \<open>P a\<close>
    by (auto simp: WithAdditionalSchemeInstallers_def schemeBuilder_Register_def intro!: sb)
next
  case (CallWithAdditionalSchemesToBuild s)
  then show ?thesis using \<open>P a\<close>
    by (auto simp: WithAdditionalSchemesToBuild_def intro!: sc)
next
  case CallOther
  then show ?thesis using \<open>P a\<close> by simp
qed

lemma chain_preserves:
  assumes reg: "\<And>a gvr obj sp. P a \<Longrightarrow> P (forGroupVersionResource a gvr obj sp)"
    and sb: "\<And>a fns. P a \<Longrightarrow> P (a\<lparr>schemeBuilder := schemeBuilder a @ fns\<rparr>)"
    and sc: "\<And>a s. P a \<Longrightarrow> P (a\<lparr>schemes := schemes a @ s\<rparr>)"
    and er: "\<And>a e. P a \<Longrightarrow> P (a\<lparr>errs := errs a @ [e]\<rparr>)"
    and "P a"
  shows "P (chain a cs)"
  using \<open>P a\<close>
proof (induction cs arbitrary: a)
  case Nil
  then show ?case by (simp add: chain_def)
next
  case (Cons c cs)
  have "P (call a c)"
    by (rule call_preserves[where P = P, OF reg sb sc er Cons.prems])
  then have "P (chain (call a c) cs)" by (rule Cons.IH)
  then show ?case by (simp add: chain_def)
qed

text \<open>Facts for evaluating a chain of calls on the new builder.\<close>

lemma groupVersionKeys_frame:
  "groupVersionKeys (a\<lparr>schemeBuilder := x\<rparr>) = groupVersionKeys a"
  "groupVersionKeys (a\<lparr>schemes := y\<rparr>) = groupVersionKeys a"
  "groupVersionKeys (a\<lparr>errs := z\<rparr>) = groupVersionKeys a"
  "groupVersionKeys APIServer = {}"
  by (simp_all add: groupVersionKeys_def APIServer_def)

lemma APIServer_fields:
  "errs APIServer = []" "storage APIServer = Map.empty" "orderedGroupVersions APIServer = []"
  "schemes APIServer = []" "schemeBuilder APIServer = []" "heap APIServer = []"
  "APIs APIServer = Map.empty" "invocations APIServer = []"
  by (simp_all add: APIServer_def)

lemmas forGVR_fields = forGVR_frame forGVR_APIs forGVR_storage forGVR_heap forGVR_keys
  forGVR_ordered groupVersionKeys_frame APIServer_fields

lemmas key_defs = widgets_def widgetsWithStatus_def gvr_GroupResource_def gvr_GroupVersion_def
  gv_WithResource_def statusGVR_def subResourceGVR_def new_singletonProvider_def

lemmas ops_defs = chain_def WithResource_def WithResourceAndHandler_def WithResourceAndStrategy_def
  WithResourceAndStorage_def WithSubResource_def WithSubResourceAndStrategy_def
  WithSubResourceAndHandler_def WithAdditionalSchemeInstallers_def WithAdditionalSchemesToBuild_def
  schemeBuilder_Register_def Let_def

subsection \<open>Sub-resources without a provider\<close>

text \<open>
  C10. When WithSubResource finds no provider for the GroupResource of the derived
  key, the state it returns is the state it was given with the error appended to
  \<open>errs\<close>: storage, the singletonProviders, apiserver.APIs, the groupVersions
  map and the ordered list are unchanged.
\<close>

theorem WithSubResource_error_frame:
  assumes "storage a (gvr_GroupResource (subResourceGVR parent subResourcePath)) = None"
  shows "WithSubResource a parent subResourcePath request = a\<lparr>errs := errs a @ [subResourceError]\<rparr> \<and>
         storage (WithSubResource a parent subResourcePath request) = storage a \<and>
         heap (WithSubResource a parent subResourcePath request) = heap a \<and>
         APIs (WithSubResource a parent subResourcePath request) = APIs a \<and>
         groupVersions (WithSubResource a parent subResourcePath request) = groupVersions a \<and>
         orderedGroupVersions (WithSubResource a parent subResourcePath request) =
           orderedGroupVersions a"
  using assms by (simp add: WithSubResource_def Let_def)

theorem WithSubResource_error_frame_witness:
  "WithSubResource APIServer (widgets ''v1'') ''scale'' scaleRequest =
     APIServer\<lparr>errs := [subResourceError]\<rparr>"
proof -
  have "storage APIServer (gvr_GroupResource (subResourceGVR (widgets ''v1'') ''scale'')) = None"
    by (simp add: APIServer_def)
  from WithSubResource_error_frame[OF this, of scaleRequest] show ?thesis
    by (simp add: APIServer_def)
qed

subsection \<open>The group-versions\<close>

lemma count_list_distinct:
  "distinct xs \<Longrightarrow> x \<in> set xs \<Longrightarrow> count_list xs x = 1"
  by (induction xs) auto

lemma groupVersionsInv_forGVR:
  assumes "groupVersionsInv a"
  shows "groupVersionsInv (forGroupVersionResource a gvr obj sp)"
proof -
  let ?a' = "forGroupVersionResource a gvr obj sp"
  let ?gv = "gvr_GroupVersion gvr"
  from assms have d: "distinct (orderedGroupVersions a)"
    and k: "set (orderedGroupVersions a) = groupVersionKeys a"
    and c1: "\<And>k. k \<in> dom (APIs a) \<Longrightarrow>
               count_list (orderedGroupVersions a) (gvr_GroupVersion k) = 1"
    by (simp_all add: groupVersionsInv_def)
  have c: "gvr_GroupVersion k \<in> set (orderedGroupVersions a)" if "k \<in> dom (APIs a)" for k
  proof (rule ccontr)
    assume "gvr_GroupVersion k \<notin> set (orderedGroupVersions a)"
    then have "count_list (orderedGroupVersions a) (gvr_GroupVersion k) = 0"
      by (simp add: count_list_0_iff)
    with c1[OF that] show False by simp
  qed
  have d': "distinct (orderedGroupVersions ?a')"
    using d k by (simp add: forGVR_ordered)
  have k': "set (orderedGroupVersions ?a') = groupVersionKeys ?a'"
    using k by (auto simp: forGVR_ordered forGVR_keys)
  have "gvr_GroupVersion k \<in> set (orderedGroupVersions ?a')" if "k \<in> dom (APIs ?a')" for k
  proof (cases "k = gvr")
    case True
    then show ?thesis using k' by (simp add: forGVR_keys)
  next
    case False
    with that have "k \<in> dom (APIs a)" by (auto simp: forGVR_APIs)
    then show ?thesis using c[of k] by (simp add: forGVR_ordered)
  qed
  then have "count_list (orderedGroupVersions ?a') (gvr_GroupVersion k) = 1"
    if "k \<in> dom (APIs ?a')" for k
    using that d' by (simp add: count_list_distinct)
  with d' k' show ?thesis unfolding groupVersionsInv_def by blast
qed

lemma groupVersionsInv_frame:
  "groupVersionsInv (a\<lparr>schemeBuilder := x\<rparr>) = groupVersionsInv a"
  "groupVersionsInv (a\<lparr>schemes := y\<rparr>) = groupVersionsInv a"
  "groupVersionsInv (a\<lparr>errs := z\<rparr>) = groupVersionsInv a"
  by (simp_all add: groupVersionsInv_def groupVersionKeys_def)

lemma groupVersionsInv_chain:
  "groupVersionsInv a \<Longrightarrow> groupVersionsInv (chain a cs)"
  by (rule chain_preserves[where P = groupVersionsInv])
    (simp_all add: groupVersionsInv_forGVR groupVersionsInv_frame)

lemma ordered_extends_chain:
  "\<exists>new. orderedGroupVersions (chain a cs) = orderedGroupVersions a @ new"
  by (rule chain_preserves
      [where P = "\<lambda>b. \<exists>new. orderedGroupVersions b = orderedGroupVersions a @ new"])
    (auto simp: forGVR_ordered)

lemma groupVersionsInv_APIServer: "groupVersionsInv APIServer"
  by (simp add: groupVersionsInv_def groupVersionKeys_def APIServer_def)

lemma forGVR_records:
  assumes "groupVersionsInv a"
  shows "count_list (orderedGroupVersions (forGroupVersionResource a gvr obj sp))
           (gvr_GroupVersion gvr) = 1"
proof -
  have "groupVersionsInv (forGroupVersionResource a gvr obj sp)"
    using assms by (rule groupVersionsInv_forGVR)
  moreover have "gvr \<in> dom (APIs (forGroupVersionResource a gvr obj sp))"
    by (simp add: forGVR_APIs)
  ultimately show ?thesis unfolding groupVersionsInv_def by blast
qed

lemma registeredKey_bound:
  "registeredKey a c = Some key \<Longrightarrow> APIs (call a c) key \<noteq> None"
  by (cases c)
    (auto simp: ops_defs forGVR_APIs split: option.splits if_splits)

lemma groupVersionsInv_call: "groupVersionsInv a \<Longrightarrow> groupVersionsInv (call a c)"
  by (rule call_preserves[where P = groupVersionsInv])
    (simp_all add: groupVersionsInv_forGVR groupVersionsInv_frame)

text \<open>
  C9. From a state in which the ordered list has each group-version once, holds
  exactly the keys of the groupVersions map, and holds once the group-version of
  every key bound in apiserver.APIs, every chain of calls leads to such a state,
  and only appends to the list (first-seen order). forGroupVersionResource, through
  which every registration goes, leaves the group-version of its key in the list
  exactly once; so does every call for the key it registers, reuse of an existing
  provider included.
\<close>

theorem groupVersions_invariant:
  assumes "groupVersionsInv a"
  shows "groupVersionsInv (chain a cs) \<and>
         (\<exists>new. orderedGroupVersions (chain a cs) = orderedGroupVersions a @ new) \<and>
         count_list (orderedGroupVersions (forGroupVersionResource a gvr obj sp))
           (gvr_GroupVersion gvr) = 1 \<and>
         (\<forall>key. registeredKey a c = Some key \<longrightarrow>
            APIs (call a c) key \<noteq> None \<and>
            count_list (orderedGroupVersions (call a c)) (gvr_GroupVersion key) = 1)"
proof -
  have "count_list (orderedGroupVersions (call a c)) (gvr_GroupVersion key) = 1"
    if "registeredKey a c = Some key" for key
  proof -
    have "key \<in> dom (APIs (call a c))"
      using registeredKey_bound[OF that] by auto
    moreover have "groupVersionsInv (call a c)"
      using assms by (rule groupVersionsInv_call)
    ultimately show ?thesis unfolding groupVersionsInv_def by blast
  qed
  then show ?thesis
    using assms
    by (simp add: groupVersionsInv_chain ordered_extends_chain forGVR_records registeredKey_bound)
qed

theorem groupVersions_invariant_witness:
  "groupVersionsInv APIServer \<and>
   groupVersionsInv
     (chain APIServer
        [CallWithResource (widgetsWithStatus ''v1''), CallWithResource (widgets ''v2''),
         CallWithSubResource (widgets ''v1'') ''scale'' scaleRequest,
         CallWithResourceAndHandler (widgets ''v1'') (Factory (Supplied 10))]) \<and>
   orderedGroupVersions
     (chain APIServer
        [CallWithResource (widgetsWithStatus ''v1''), CallWithResource (widgets ''v2''),
         CallWithSubResource (widgets ''v1'') ''scale'' scaleRequest,
         CallWithResourceAndHandler (widgets ''v1'') (Factory (Supplied 10))]) =
     [GroupVersion ''apps'' ''v1'', GroupVersion ''apps'' ''v2'']"
proof -
  have ord: "orderedGroupVersions
     (chain APIServer
        [CallWithResource (widgetsWithStatus ''v1''), CallWithResource (widgets ''v2''),
         CallWithSubResource (widgets ''v1'') ''scale'' scaleRequest,
         CallWithResourceAndHandler (widgets ''v1'') (Factory (Supplied 10))]) =
     [GroupVersion ''apps'' ''v1'', GroupVersion ''apps'' ''v2'']"
    by (simp add: ops_defs forGVR_fields key_defs)
  show ?thesis
    using groupVersions_invariant[OF groupVersionsInv_APIServer,
        of "[CallWithResource (widgetsWithStatus ''v1''), CallWithResource (widgets ''v2''),
         CallWithSubResource (widgets ''v1'') ''scale'' scaleRequest,
         CallWithResourceAndHandler (widgets ''v1'') (Factory (Supplied 10))]"] ord
    by (simp add: groupVersionsInv_APIServer)
qed

subsection \<open>Version priorities\<close>

lemma collectGroupVersions_lookup:
  "(case collectGroupVersions groups ks g of None \<Rightarrow> {} | Some vs \<Rightarrow> vs) =
     (case groups g of None \<Rightarrow> {} | Some vs \<Rightarrow> vs) \<union>
     {Version k |k. k \<in> set ks \<and> Group k = g}"
proof (induction ks arbitrary: groups)
  case Nil
  then show ?case by simp
next
  case (Cons k ks)
  show ?case
    by (simp add: Cons.IH Let_def) (auto split: option.splits)
qed

lemma priorityOf_collect:
  "priorityOf (collectGroupVersions Map.empty ks) g =
     map (GroupVersion g) (sorted_list_of_set {Version k |k. k \<in> set ks \<and> Group k = g})"
  using collectGroupVersions_lookup[of Map.empty ks g]
  by (simp add: priorityOf_def sets_List_def)

lemma set_rangeKeys: "dom m \<subseteq> set order \<Longrightarrow> set (rangeKeys m order) = dom m"
  by (auto simp: rangeKeys_def)

lemma versions_of_keys:
  "{Version k |k. k \<in> K \<and> Group k = g} = {v. GroupVersion g v \<in> gvr_GroupVersion ` K}"
  by (auto simp: gvr_GroupVersion_def image_iff)

lemma observedInv_forGVR:
  "observedInv a \<Longrightarrow> observedInv (forGroupVersionResource a gvr obj sp)"
  by (auto simp: observedInv_def forGVR_ordered forGVR_keys forGVR_APIs)

lemma observedInv_frame:
  "observedInv (a\<lparr>schemeBuilder := x\<rparr>) = observedInv a"
  "observedInv (a\<lparr>schemes := y\<rparr>) = observedInv a"
  "observedInv (a\<lparr>errs := z\<rparr>) = observedInv a"
  unfolding observedInv_def groupVersionKeys_def by simp_all

lemma observedInv_chain: "observedInv a \<Longrightarrow> observedInv (chain a cs)"
  by (rule chain_preserves[where P = observedInv])
    (simp_all only: observedInv_forGVR observedInv_frame)

lemma observedInv_APIServer: "observedInv APIServer"
  by (simp add: observedInv_def groupVersionKeys_def APIServer_def)

lemma priorityOf_chain:
  assumes "dom (APIs (chain APIServer cs)) \<subseteq> set order"
  shows "priorityOf (collectGroupVersions Map.empty (rangeKeys (APIs (chain APIServer cs)) order)) g =
     map (GroupVersion g)
       (sorted_list_of_set {v. GroupVersion g v \<in> set (orderedGroupVersions (chain APIServer cs))})"
proof -
  have "observedInv (chain APIServer cs)"
    by (rule observedInv_chain[OF observedInv_APIServer])
  then have "set (orderedGroupVersions (chain APIServer cs)) =
      gvr_GroupVersion ` dom (APIs (chain APIServer cs))"
    unfolding observedInv_def by blast
  then show ?thesis
    by (simp add: priorityOf_collect set_rangeKeys[OF assms] versions_of_keys)
qed

lemma setPriorities_calls:
  "fst (setPriorities x groups gs scheme) = None \<Longrightarrow>
   versionPriorityCalls (snd (setPriorities x groups gs scheme)) =
     versionPriorityCalls scheme @ map (priorityOf groups) gs"
proof (induction gs arbitrary: scheme)
  case Nil
  then show ?case by simp
next
  case (Cons g gs)
  then show ?case
    by (auto simp: SetVersionPriority_def split: option.splits prod.splits)
qed

lemma foldl_AddToGroupVersion_calls:
  "versionPriorityCalls (foldl metav1_AddToGroupVersion scheme gvs) = versionPriorityCalls scheme"
  by (induction gvs arbitrary: scheme) (simp_all add: metav1_AddToGroupVersion_def)

lemma buildVersionPriorities_calls:
  assumes "fst (buildVersionPriorities x a i scheme) = None"
  shows "versionPriorityCalls (snd (buildVersionPriorities x a i scheme)) =
     versionPriorityCalls scheme @
     map (priorityOf (collectGroupVersions Map.empty (rangeKeys (APIs a) (range_APIs x i))))
       (rangeKeys (collectGroupVersions Map.empty (rangeKeys (APIs a) (range_APIs x i)))
          (range_groupVersions x i))"
proof -
  let ?groups = "collectGroupVersions Map.empty (rangeKeys (APIs a) (range_APIs x i))"
  let ?gs = "rangeKeys ?groups (range_groupVersions x i)"
  obtain r s where rs: "setPriorities x ?groups ?gs scheme = (r, s)"
    by (cases "setPriorities x ?groups ?gs scheme")
  with assms have r: "r = None"
    by (cases r) (simp_all add: buildVersionPriorities_def Let_def)
  have "versionPriorityCalls s = versionPriorityCalls scheme @ map (priorityOf ?groups) ?gs"
    using setPriorities_calls[of x ?groups ?gs scheme] rs r by simp
  then show ?thesis
    using rs r by (simp add: buildVersionPriorities_def Let_def foldl_AddToGroupVersion_calls)
qed

text \<open>
  C4. Take two chains of calls on the new builder that leave the same set of
  group-versions in the ordered list, and let the closure of Build range over the
  keys of apiserver.APIs in any two orders. For every group the slice it passes to
  SetVersionPriority is the same after both chains: the versions of the group
  among the observed group-versions, sorted as strings. When a run of the closure
  ends without an error, the calls of SetVersionPriority that the scheme has
  recorded have grown by exactly these slices, one for each group visited.
\<close>

theorem version_priority_deterministic:
  assumes "set (orderedGroupVersions (chain APIServer cs1)) =
           set (orderedGroupVersions (chain APIServer cs2))"
    and "dom (APIs (chain APIServer cs1)) \<subseteq> set order1"
    and "dom (APIs (chain APIServer cs2)) \<subseteq> set order2"
  shows "priorityOf (collectGroupVersions Map.empty
                       (rangeKeys (APIs (chain APIServer cs1)) order1)) g =
         priorityOf (collectGroupVersions Map.empty
                       (rangeKeys (APIs (chain APIServer cs2)) order2)) g \<and>
         priorityOf (collectGroupVersions Map.empty
                       (rangeKeys (APIs (chain APIServer cs1)) order1)) g =
         map (GroupVersion g)
           (sorted_list_of_set
              {v. GroupVersion g v \<in> set (orderedGroupVersions (chain APIServer cs1))}) \<and>
         (range_APIs x i = order1 \<and>
          fst (buildVersionPriorities x (chain APIServer cs1) i scheme) = None \<longrightarrow>
            versionPriorityCalls (snd (buildVersionPriorities x (chain APIServer cs1) i scheme)) =
              versionPriorityCalls scheme @
              map (\<lambda>g. map (GroupVersion g)
                     (sorted_list_of_set
                        {v. GroupVersion g v \<in>
                            set (orderedGroupVersions (chain APIServer cs1))}))
                (rangeKeys (collectGroupVersions Map.empty
                              (rangeKeys (APIs (chain APIServer cs1)) order1))
                   (range_groupVersions x i)))"
proof -
  let ?sorted = "\<lambda>g. map (GroupVersion g)
                     (sorted_list_of_set
                        {v. GroupVersion g v \<in>
                            set (orderedGroupVersions (chain APIServer cs1))})"
  have p1: "priorityOf (collectGroupVersions Map.empty
                       (rangeKeys (APIs (chain APIServer cs1)) order1)) = ?sorted"
    by (rule ext) (rule priorityOf_chain[OF assms(2)])
  have p2: "priorityOf (collectGroupVersions Map.empty
                       (rangeKeys (APIs (chain APIServer cs2)) order2)) g = ?sorted g"
    using assms(1) by (simp add: priorityOf_chain[OF assms(3)])
  have calls: "versionPriorityCalls (snd (buildVersionPriorities x (chain APIServer cs1) i scheme)) =
              versionPriorityCalls scheme @
              map ?sorted
                (rangeKeys (collectGroupVersions Map.empty
                              (rangeKeys (APIs (chain APIServer cs1)) order1))
                   (range_groupVersions x i))"
    if "range_APIs x i = order1"
      and "fst (buildVersionPriorities x (chain APIServer cs1) i scheme) = None"
    using buildVersionPriorities_calls[OF that(2)] p1 that(1) by simp
  show ?thesis
    using p1 p2 calls by (intro conjI impI) (simp_all only:)
qed

theorem version_priority_deterministic_witness:
  "priorityOf (collectGroupVersions Map.empty
       (rangeKeys (APIs (chain APIServer
           [CallWithResource (widgets ''v1''), CallWithResource (widgets ''v2'')]))
         [objGVR (widgets ''v2''), objGVR (widgets ''v1'')])) ''apps'' =
   priorityOf (collectGroupVersions Map.empty
       (rangeKeys (APIs (chain APIServer
           [CallWithResource (widgets ''v2''), CallWithResource (widgets ''v1'')]))
         [objGVR (widgets ''v1''), objGVR (widgets ''v2'')])) ''apps'' \<and>
   priorityOf (collectGroupVersions Map.empty
       (rangeKeys (APIs (chain APIServer
           [CallWithResource (widgets ''v1''), CallWithResource (widgets ''v2'')]))
         [objGVR (widgets ''v2''), objGVR (widgets ''v1'')])) ''apps'' =
   [GroupVersion ''apps'' ''v1'', GroupVersion ''apps'' ''v2'']"
proof -
  let ?cs1 = "[CallWithResource (widgets ''v1''), CallWithResource (widgets ''v2'')]"
  let ?cs2 = "[CallWithResource (widgets ''v2''), CallWithResource (widgets ''v1'')]"
  have o1: "orderedGroupVersions (chain APIServer ?cs1) =
      [GroupVersion ''apps'' ''v1'', GroupVersion ''apps'' ''v2'']"
    by (simp add: ops_defs forGVR_fields key_defs)
  have o2: "orderedGroupVersions (chain APIServer ?cs2) =
      [GroupVersion ''apps'' ''v2'', GroupVersion ''apps'' ''v1'']"
    by (simp add: ops_defs forGVR_fields key_defs)
  have same: "set (orderedGroupVersions (chain APIServer ?cs1)) =
      set (orderedGroupVersions (chain APIServer ?cs2))"
    unfolding o1 o2 by auto
  have d1: "dom (APIs (chain APIServer ?cs1)) \<subseteq>
      set [objGVR (widgets ''v2''), objGVR (widgets ''v1'')]"
    by (simp add: ops_defs forGVR_fields key_defs)
  have d2: "dom (APIs (chain APIServer ?cs2)) \<subseteq>
      set [objGVR (widgets ''v1''), objGVR (widgets ''v2'')]"
    by (simp add: ops_defs forGVR_fields key_defs)
  have vs: "{v. GroupVersion ''apps'' v \<in>
               set [GroupVersion ''apps'' ''v1'', GroupVersion ''apps'' ''v2'']} = {''v1'', ''v2''}"
    by auto
  have srt: "sorted_list_of_set {''v1'', ''v2''} = [''v1'', ''v2'']"
    by code_simp
  have m: "map (GroupVersion ''apps'') [''v1'', ''v2''] =
      [GroupVersion ''apps'' ''v1'', GroupVersion ''apps'' ''v2'']"
    by simp
  note t = version_priority_deterministic[OF same d1 d2, of "''apps''"]
  show ?thesis
    using t[THEN conjunct1] t[THEN conjunct2, THEN conjunct1]
    unfolding o1 vs srt m by (rule conjI)
qed

subsection \<open>Re-registration of a GroupResource\<close>






subsection \<open>Two versions of one resource\<close>

text \<open>
  C2 fails on the code. Two versions of one GroupResource are registered through
  WithResource, with a factory (rest.New) that builds a new store at each
  invocation. apiserver.APIs binds the first version to the factory itself and the
  second to the Get of the singletonProvider that wraps it. Looking up the handler
  of each version invokes the factory twice, and the two handlers are different
  stores.
\<close>

theorem WithResource_versions_get_separate_handlers:
  "APIs (chain APIServer [CallWithResource (widgets ''v1''), CallWithResource (widgets ''v2'')])
     (objGVR (widgets ''v1'')) = Some (Factory (rest_New (widgets ''v1''))) \<and>
   APIs (chain APIServer [CallWithResource (widgets ''v1''), CallWithResource (widgets ''v2'')])
     (objGVR (widgets ''v2'')) = Some (SingletonGet 0) \<and>
   map_option (\<lambda>(rs, w). (rs, map fst (invocations w)))
     (retrieveAll freshStore
        (chain APIServer [CallWithResource (widgets ''v1''), CallWithResource (widgets ''v2'')])
        [objGVR (widgets ''v1''), objGVR (widgets ''v2'')] (0, 0)) =
   Some ([(Some 0, None), (Some 1, None)],
         [rest_New (widgets ''v1''), rest_New (widgets ''v1'')])"
  by (simp add: ops_defs forGVR_fields key_defs retrieve_def callProvider_Factory
      callProvider_fresh_factory freshStore_def)

text \<open>
  C8 fails on the code. Both versions of a resource with a status are registered
  through WithResource. The first registration binds the status key of its
  version; the second returns at line 122, before the status block, and the status
  key of the second version is not bound. An object with a status that serves
  itself (here a Getter) returns from the type switch, and its status key is not
  bound either.
\<close>

theorem WithResource_second_version_has_no_status:
  "APIs (chain APIServer
           [CallWithResource (widgetsWithStatus ''v1''), CallWithResource (widgetsWithStatus ''v2'')])
        (statusGVR (objGVR (widgetsWithStatus ''v1''))) =
     Some (Factory (rest_NewStatus (widgetsWithStatus ''v1''))) \<and>
   APIs (chain APIServer
           [CallWithResource (widgetsWithStatus ''v1''), CallWithResource (widgetsWithStatus ''v2'')])
        (statusGVR (objGVR (widgetsWithStatus ''v2''))) = None \<and>
   APIs (chain APIServer [CallWithResource ((widgetsWithStatus ''v1'')\<lparr>implGetter := True\<rparr>)])
        (statusGVR (objGVR (widgetsWithStatus ''v1''))) = None"
  by (simp add: ops_defs forGVR_fields key_defs)

subsection \<open>Build\<close>

lemma addToSchemes_frame:
  "errs (snd (addToSchemes x a i ps)) = errs a"
  "orderedGroupVersions (snd (addToSchemes x a i ps)) = orderedGroupVersions a"
  "schemeBuilder (snd (addToSchemes x a i ps)) = schemeBuilder a"
  by (induction ps arbitrary: a i; simp split: prod.splits option.splits)+

lemma Build_outcome:
  "fst (Build x a) =
     (case fst (addToSchemes x
                  (schemeBuilder_Register (a\<lparr>schemes := schemes a @ [apiserver_Scheme]\<rparr>)
                     [BuildVersionPriorities]) 0 (schemes a @ [apiserver_Scheme])) of
        Some e \<Rightarrow> Panic e
      | None \<Rightarrow>
          if errs a = [] then Return (Some (Command (orderedGroupVersions a))) None
          else Return None (Some (Errs (errs a))))"
proof -
  let ?a2 = "schemeBuilder_Register (a\<lparr>schemes := schemes a @ [apiserver_Scheme]\<rparr>)
                     [BuildVersionPriorities]"
  obtain r b where rb: "addToSchemes x ?a2 0 (schemes a @ [apiserver_Scheme]) = (r, b)"
    by (cases "addToSchemes x ?a2 0 (schemes a @ [apiserver_Scheme])")
  have "errs b = errs ?a2" "orderedGroupVersions b = orderedGroupVersions ?a2"
    using addToSchemes_frame(1,2)[of x ?a2 0 "schemes a @ [apiserver_Scheme]"] rb by simp_all
  then have "errs b = errs a" "orderedGroupVersions b = orderedGroupVersions a"
    by (simp_all add: schemeBuilder_Register_def)
  then show ?thesis
    using rb by (simp add: Build_def Let_def schemeBuilder_Register_def split: option.splits)
qed

lemma errs_call: "\<exists>es. errs (call a c) = errs a @ es"
  by (rule call_preserves[where P = "\<lambda>b. \<exists>es. errs b = errs a @ es"])
    (auto simp: forGVR_frame)

lemma errs_chain: "\<exists>es. errs (chain a cs) = errs a @ es"
  by (rule chain_preserves[where P = "\<lambda>b. \<exists>es. errs b = errs a @ es"])
    (auto simp: forGVR_frame)


lemma addToSchemes_schemeBuilder:
  "addToSchemes x a i ps = (r, b) \<Longrightarrow> schemeBuilder b = schemeBuilder a"
  using addToSchemes_frame(3)[of x a i ps] by simp


lemmas build_eval = Build_outcome ops_defs forGVR_fields key_defs runInstaller_def
  buildVersionPriorities_def rangeKeys_def quietExternals_def failingExternals_def

text \<open>
  C5, as amended. When no provider exists for the GroupResource of the derived
  key, WithSubResource appends its error to \<open>errs\<close> and returns the builder.
  After any further calls, a Build that does not panic (no scheme installer fails)
  returns no command and the aggregate of \<open>errs\<close>: the error is among them, their
  count is at least 1, and the message is the count header followed by the
  messages, among them the text of the error.
\<close>

theorem WithSubResource_without_provider_fails_Build:
  assumes "storage a (gvr_GroupResource (subResourceGVR parent path)) = None"
    and "b = chain (WithSubResource a parent path request) cs"
    and "\<forall>e. fst (Build x b) \<noteq> Panic e"
  shows "errs (WithSubResource a parent path request) = errs a @ [subResourceError] \<and>
         fst (Build x b) = Return None (Some (Errs (errs b))) \<and>
         subResourceError \<in> set (errs b) \<and> 1 \<le> length (errs b) \<and>
         Error (Errs (errs b)) =
           (decimal (length (errs b)) @ '' errors: '') @
           concat (map (\<lambda>e. newline @ Error e) (errs b)) \<and>
         (\<exists>pre post. Error (Errs (errs b)) = pre @ Error subResourceError @ post)"
proof -
  have rec: "errs (WithSubResource a parent path request) = errs a @ [subResourceError]"
    using assms(1) by (simp add: WithSubResource_def Let_def)
  obtain es where es: "errs b = errs a @ subResourceError # es"
    using errs_chain[of "WithSubResource a parent path request" cs] rec assms(2) by auto
  then have ne: "errs b \<noteq> []" by simp
  have ret: "fst (Build x b) = Return None (Some (Errs (errs b)))"
    using assms(3) ne by (auto simp: Build_outcome split: option.splits)
  have "Error (Errs (errs b)) =
      ((decimal (length (errs b)) @ '' errors: '') @
         concat (map (\<lambda>e. newline @ Error e) (errs a)) @ newline) @
      Error subResourceError @ concat (map (\<lambda>e. newline @ Error e) es)"
    unfolding Error_Errs by (simp add: es)
  then have inf: "\<exists>pre post. Error (Errs (errs b)) = pre @ Error subResourceError @ post"
    by blast
  have mem: "subResourceError \<in> set (errs b)" and len: "1 \<le> length (errs b)"
    by (simp_all add: es)
  show ?thesis
    using rec ret mem len Error_Errs[of "errs b"] inf by (intro conjI)
qed

theorem WithSubResource_without_provider_fails_Build_witness:
  "fst (Build quietExternals
         (WithSubResource APIServer (widgets ''v1'') ''scale'' scaleRequest)) =
     Return None (Some (Errs [subResourceError])) \<and>
   Error (Errs [subResourceError]) = ''1 errors: '' @ newline @ Error subResourceError"
proof -
  let ?b = "WithSubResource APIServer (widgets ''v1'') ''scale'' scaleRequest"
  have 1: "storage APIServer (gvr_GroupResource (subResourceGVR (widgets ''v1'') ''scale'')) = None"
    by (simp add: APIServer_fields)
  have 2: "?b = chain (WithSubResource APIServer (widgets ''v1'') ''scale'' scaleRequest) []"
    by (simp add: chain_def)
  have e: "errs ?b = [subResourceError]"
    by (simp add: WithSubResource_def Let_def APIServer_fields)
  have 3: "\<forall>e. fst (Build quietExternals ?b) \<noteq> Panic e"
    by (simp add: build_eval)
  show ?thesis
    using WithSubResource_without_provider_fails_Build[OF 1 2 3]
    by (simp add: e digit_def del: Error.simps)
qed

text \<open>
  C5 as stated fails. An additional scheme installer that fails is registered, and
  then a sub-resource for which no provider exists. Build panics with the
  installer's error at line 348 and never reaches the test of \<open>errs\<close>: it returns
  no aggregate error.
\<close>

theorem Build_panic_hides_aggregate:
  "storage (chain APIServer [CallWithAdditionalSchemeInstallers [7]])
     (gvr_GroupResource (subResourceGVR (widgets ''v1'') ''scale'')) = None \<and>
   fst (Build failingExternals
         (chain APIServer
            [CallWithAdditionalSchemeInstallers [7],
             CallWithSubResource (widgets ''v1'') ''scale'' scaleRequest])) =
     Panic (Errorf ''install failed'')"
  by (simp add: build_eval)




end
